theory Spec2Isabelle
  imports Main "HOL-Library.Char_ord" "HOL-Library.List_Lexorder"
begin

section \<open>project\_to\_md.py: a shallow embedding\<close>

text \<open>
  Python \<open>str\<close> and \<open>bytes\<close> values are modelled as \<open>string\<close> (a list of 8-bit
  characters): a text is represented by its UTF-8 bytes. Comparing two such lists
  lexicographically, byte by byte, orders them as Python orders two \<open>str\<close> values
  (by code point), so \<open>sorted\<close> on names is \<open>sort\<close> on \<open>string\<close>.
\<close>

subsection \<open>String helpers of the Python runtime\<close>

text \<open>\<open>sep.join(xs)\<close>.\<close>

fun str_join :: "string \<Rightarrow> string list \<Rightarrow> string" where
  "str_join sep [] = []"
| "str_join sep [x] = x"
| "str_join sep (x # y # ys) = x @ sep @ str_join sep (y # ys)"

text \<open>\<open>s.split(sep)\<close> for a one-character separator: \<open>''''.split('/')\<close> is \<open>['''']\<close>.\<close>

fun str_split :: "char \<Rightarrow> string \<Rightarrow> string list" where
  "str_split sep [] = [[]]"
| "str_split sep (c # cs) =
     (if c = sep then [] # str_split sep cs
      else (case str_split sep cs of
              [] \<Rightarrow> [[c]]
            | w # ws \<Rightarrow> (c # w) # ws))"

text \<open>
  \<open>s.lower()\<close>, on the ASCII letters. The only use is the lookup of a file extension in
  a table of ASCII keys, and no character outside ASCII lowers to one of the letters of
  those keys, so the lookup cannot tell the difference.
\<close>

definition lower_char :: "char \<Rightarrow> char" where
  "lower_char c =
     (if CHR ''A'' \<le> c \<and> c \<le> CHR ''Z'' then char_of (of_char c + (32::nat)) else c)"

definition str_lower :: "string \<Rightarrow> string" where
  "str_lower s = map lower_char s"

subsection \<open>posixpath\<close>

text \<open>\<open>os.path.join(a, b)\<close>.\<close>

definition os_path_join :: "string \<Rightarrow> string \<Rightarrow> string" where
  "os_path_join a b =
     (if take 1 b = ''/'' then b
      else if a = [] \<or> last a = CHR ''/'' then a @ b
      else a @ ''/'' @ b)"

text \<open>
  \<open>os.path.normpath\<close>: the loop over the components keeps the list \<open>new_comps\<close>;
  \<open>init\<close> says whether the path starts with a slash.
\<close>

fun norm_comps :: "bool \<Rightarrow> string list \<Rightarrow> string list \<Rightarrow> string list" where
  "norm_comps init [] new_comps = new_comps"
| "norm_comps init (part # comps) new_comps =
     (if part = [] \<or> part = ''.'' then norm_comps init comps new_comps
      else if part \<noteq> ''..'' \<or> (\<not> init \<and> new_comps = [])
                \<or> (new_comps \<noteq> [] \<and> last new_comps = ''..'')
        then norm_comps init comps (new_comps @ [part])
      else if new_comps \<noteq> [] then norm_comps init comps (butlast new_comps)
      else norm_comps init comps new_comps)"

definition os_path_normpath :: "string \<Rightarrow> string" where
  "os_path_normpath path =
     (if path = [] then ''.''
      else
        let initial_slashes =
              (if take 1 path = ''/''
               then (if take 2 path = ''//'' \<and> take 3 path \<noteq> ''///'' then 2 else 1)
               else (0::nat));
            comps = norm_comps (initial_slashes \<noteq> 0) (str_split CHR ''/'' path) [];
            joined = replicate initial_slashes CHR ''/'' @ str_join ''/'' comps
        in if joined = [] then ''.'' else joined)"

text \<open>\<open>os.path.abspath(path)\<close>, with the working directory as a parameter.\<close>

definition os_path_abspath :: "string \<Rightarrow> string \<Rightarrow> string" where
  "os_path_abspath cwd path =
     os_path_normpath (if take 1 path = ''/'' then path else os_path_join cwd path)"

text \<open>The length of \<open>commonprefix([xs, ys])\<close> on two lists of components.\<close>

fun commonprefix_len :: "string list \<Rightarrow> string list \<Rightarrow> nat" where
  "commonprefix_len (x # xs) (y # ys) = (if x = y then Suc (commonprefix_len xs ys) else 0)"
| "commonprefix_len _ _ = 0"

text \<open>
  \<open>os.path.relpath(path, start)\<close>. It raises \<open>ValueError\<close> on an empty \<open>path\<close>; the
  program only passes \<open>os.path.join(root, entry)\<close> for a directory entry \<open>entry\<close>,
  which is never empty.
\<close>

definition os_path_relpath :: "string \<Rightarrow> string \<Rightarrow> string \<Rightarrow> string" where
  "os_path_relpath cwd path start =
     (let start_list = filter (\<lambda>x. x \<noteq> []) (str_split CHR ''/'' (os_path_abspath cwd start));
          path_list = filter (\<lambda>x. x \<noteq> []) (str_split CHR ''/'' (os_path_abspath cwd path));
          i = commonprefix_len start_list path_list;
          rel_list = replicate (length start_list - i) ''..'' @ drop i path_list
      in case rel_list of
           [] \<Rightarrow> ''.''
         | r # rs \<Rightarrow> foldl os_path_join r rs)"

text \<open>
  \<open>os.path.splitext(p)[1]\<close>: the extension starts at the last dot of the last
  component, unless only dots precede it there.
\<close>

definition splitext_ext :: "string \<Rightarrow> string" where
  "splitext_ext p =
     (let base = last (str_split CHR ''/'' p);
          stem = rev (dropWhile (\<lambda>c. c \<noteq> CHR ''.'') (rev base))
      in if stem = [] \<or> butlast stem = [] \<or> (\<forall>c \<in> set (butlast stem). c = CHR ''.'') then []
         else drop (length stem - 1) base)"

subsection \<open>UTF-8\<close>

text \<open>
  \<open>chunk.decode("utf-8")\<close> raises \<open>UnicodeDecodeError\<close> unless the bytes are
  well-formed UTF-8 (no overlong form, no surrogate, nothing above U+10FFFF, no sequence
  cut short). \<open>utf8_valid\<close> is true when the decoding succeeds.
\<close>

definition in_range :: "nat \<Rightarrow> nat \<Rightarrow> char \<Rightarrow> bool" where
  "in_range lo hi c = (lo \<le> of_char c \<and> of_char c \<le> hi)"

fun utf8_valid :: "string \<Rightarrow> bool" where
  "utf8_valid [] = True"
| "utf8_valid (a # rest) =
     (if in_range 0x00 0x7F a then utf8_valid rest
      else if in_range 0xC2 0xDF a then
        (case rest of b # r \<Rightarrow> in_range 0x80 0xBF b \<and> utf8_valid r | _ \<Rightarrow> False)
      else if in_range 0xE0 0xEF a then
        (case rest of
           b # c # r \<Rightarrow>
             in_range (if a = char_of (0xE0::nat) then 0xA0 else 0x80)
                      (if a = char_of (0xED::nat) then 0x9F else 0xBF) b
             \<and> in_range 0x80 0xBF c \<and> utf8_valid r
         | _ \<Rightarrow> False)
      else if in_range 0xF0 0xF4 a then
        (case rest of
           b # c # d # r \<Rightarrow>
             in_range (if a = char_of (0xF0::nat) then 0x90 else 0x80)
                      (if a = char_of (0xF4::nat) then 0x8F else 0xBF) b
             \<and> in_range 0x80 0xBF c \<and> in_range 0x80 0xBF d \<and> utf8_valid r
         | _ \<Rightarrow> False)
      else False)"

subsection \<open>The operating system and the pathspec library\<close>

text \<open>
  An exception is modelled by its message, \<open>str(e)\<close>. The program never looks at the
  class of an exception: its handlers are \<open>except Exception\<close>.
\<close>

datatype py_exception = PyException string

fun exn_str :: "py_exception \<Rightarrow> string" where
  "exn_str (PyException msg) = msg"

text \<open>
  A \<open>PathSpec\<close> is modelled by its method \<open>match_file\<close>, a predicate on relative
  paths; \<open>None\<close> is Python's \<open>None\<close>.
\<close>

type_synonym PathSpec = "string \<Rightarrow> bool"

text \<open>
  The directory structure that \<open>os.listdir\<close> and \<open>os.path.isdir\<close> see is a finite
  tree. \<open>Dir es\<close> is a directory whose listing returns the names of \<open>es\<close>, in that
  order (the order is arbitrary, as Python documents); \<open>DirUnlistable e\<close> is a directory
  on which \<open>os.listdir\<close> raises \<open>e\<close>; \<open>NonDir\<close> is every other entry (a regular file,
  a broken link, a socket). The content of files is read through the paths, by the
  functions of the record \<open>os\<close>.
\<close>

datatype fsnode = Dir "(string \<times> fsnode) list" | DirUnlistable py_exception | NonDir

record os =
  getcwd :: string
  fs_root :: fsnode
  path_exists :: "string \<Rightarrow> bool"
  open_rb :: "string \<Rightarrow> py_exception + string"
  open_text :: "string \<Rightarrow> py_exception + string"
  pathspec_from_lines :: "string \<Rightarrow> py_exception + PathSpec"

text \<open>
  \<^item> \<open>getcwd\<close>: \<open>os.getcwd()\<close>, an absolute path;
  \<^item> \<open>fs_root\<close>: the directory tree found at \<open>getcwd\<close>;
  \<^item> \<open>path_exists p\<close>: \<open>os.path.exists(p)\<close>;
  \<^item> \<open>open_rb p\<close>: opening \<open>p\<close> with mode \<open>"rb"\<close> and reading it: the bytes, or the
    exception raised;
  \<^item> \<open>open_text p\<close>: opening \<open>p\<close> with mode \<open>"r"\<close> and encoding UTF-8 and reading it
    whole: the text, or the exception raised;
  \<^item> \<open>pathspec_from_lines content\<close>:
    \<open>PathSpec.from_lines("gitwildmatch", content.splitlines())\<close>, of the pathspec library.
\<close>

fun os_path_isdir :: "fsnode \<Rightarrow> bool" where
  "os_path_isdir (Dir es) = True"
| "os_path_isdir (DirUnlistable e) = True"
| "os_path_isdir NonDir = False"

subsection \<open>load\_gitignore\_patterns, is\_ignored, is\_binary\_file\<close>

definition load_gitignore_patterns :: "os \<Rightarrow> string \<Rightarrow> py_exception + PathSpec option" where
  "load_gitignore_patterns sys gitignore_path =
     (if \<not> path_exists sys gitignore_path then Inr None
      else (case open_text sys gitignore_path of
              Inl e \<Rightarrow> Inl e
            | Inr gitignore_content \<Rightarrow>
                (case pathspec_from_lines sys gitignore_content of
                   Inl e \<Rightarrow> Inl e
                 | Inr spec \<Rightarrow> Inr (Some spec))))"

definition is_ignored :: "os \<Rightarrow> string \<Rightarrow> PathSpec option \<Rightarrow> bool" where
  "is_ignored sys filepath spec =
     (case spec of
        None \<Rightarrow> False
      | Some match_file \<Rightarrow>
          (let rel_path = os_path_relpath (getcwd sys) filepath (getcwd sys)
           in match_file rel_path))"

definition is_binary_file :: "os \<Rightarrow> string \<Rightarrow> nat \<Rightarrow> bool" where
  "is_binary_file sys filepath check_bytes =
     (case open_rb sys filepath of
        Inl e \<Rightarrow> True
      | Inr content \<Rightarrow>
          (let chunk = take check_bytes content
           in if CHR 0x00 \<in> set chunk then True
              else if \<not> utf8_valid chunk then True
              else False))"

subsection \<open>build\_file\_tree\<close>

text \<open>
  The tree is a Python \<open>dict\<close>, which keeps its keys in insertion order: an association
  list. A value is another \<open>dict\<close>, \<open>'FILE'\<close> or \<open>'BINARY'\<close>.
\<close>

datatype tree = Subtree "(string \<times> tree) list" | FILE | BINARY

type_synonym pydict = "(string \<times> tree) list"

text \<open>\<open>d[k] = v\<close>: a key already present keeps its place.\<close>

fun dict_set :: "pydict \<Rightarrow> string \<Rightarrow> tree \<Rightarrow> pydict" where
  "dict_set [] k v = [(k, v)]"
| "dict_set ((k', v') # d) k v =
     (if k' = k then (k, v) # d else (k', v') # dict_set d k v)"

definition skip_dirs :: "string set" where
  "skip_dirs = {''.git'', ''__pycache__''}"

text \<open>
  \<open>build_file_tree sys spec root node\<close>: \<open>node\<close> is the directory found at the path
  \<open>root\<close>. \<open>build_loop\<close> is the \<open>for\<close> loop over \<open>sorted(os.listdir(root))\<close>: each name
  comes with the node found at \<open>os.path.join(root, entry)\<close>, and \<open>tree\<close> is the
  dictionary built so far.
\<close>

function build_file_tree :: "os \<Rightarrow> PathSpec option \<Rightarrow> string \<Rightarrow> fsnode \<Rightarrow> py_exception + pydict"
  and build_loop ::
    "os \<Rightarrow> PathSpec option \<Rightarrow> string \<Rightarrow> (string \<times> fsnode) list \<Rightarrow> pydict \<Rightarrow> py_exception + pydict"
where
  "build_file_tree sys spec root (Dir es) = build_loop sys spec root (sort_key fst es) []"
| "build_file_tree sys spec root (DirUnlistable e) = Inl e"
| "build_file_tree sys spec root NonDir = Inl (PyException ''Not a directory'')"
| "build_loop sys spec root [] tree = Inr tree"
| "build_loop sys spec root ((entry, child) # rest) tree =
     (let path = os_path_join root entry in
      if entry \<in> skip_dirs \<and> os_path_isdir child then build_loop sys spec root rest tree
      else if is_ignored sys path spec then build_loop sys spec root rest tree
      else if os_path_isdir child then
        (case build_file_tree sys spec path child of
           Inl e \<Rightarrow> Inl e
         | Inr sub \<Rightarrow> build_loop sys spec root rest (dict_set tree entry (Subtree sub)))
      else if is_binary_file sys path 1024
        then build_loop sys spec root rest (dict_set tree entry BINARY)
      else build_loop sys spec root rest (dict_set tree entry FILE))"
  by pat_completeness auto
termination
proof -
  have ins: "size_list f (insort_key k x xs) = Suc (f x + size_list f xs)"
    for f :: "string \<times> fsnode \<Rightarrow> nat" and k :: "string \<times> fsnode \<Rightarrow> string" and x xs
    by (induction xs) auto
  have srt: "size_list f (sort_key k xs) = size_list f xs"
    for f :: "string \<times> fsnode \<Rightarrow> nat" and k :: "string \<times> fsnode \<Rightarrow> string" and xs
    by (induction xs) (auto simp: ins)
  show ?thesis
    by (relation "measure (\<lambda>x. case x of
            Inl (sys, spec, root, node) \<Rightarrow> size node
          | Inr (sys, spec, root, es, tree) \<Rightarrow> size_list (size_prod (\<lambda>_. 0) size) es)")
       (auto simp: srt)
qed

subsection \<open>render\_tree\_markdown\<close>

text \<open>
  \<open>render_lines\<close> is the list \<open>lines\<close> that the loop fills, in the order of the
  \<open>append\<close> calls; \<open>render_tree_markdown\<close> joins it.
\<close>

function render_tree_markdown :: "pydict \<Rightarrow> string \<Rightarrow> string"
  and render_lines :: "pydict \<Rightarrow> string \<Rightarrow> string list"
where
  "render_tree_markdown tree prefix = str_join ''\<newline>'' (render_lines tree prefix)"
| "render_lines [] prefix = []"
| "render_lines ((name, val) # items) prefix =
     (case val of
        Subtree sub \<Rightarrow>
          [prefix @ ''- **'' @ name @ ''/**'', render_tree_markdown sub (prefix @ ''  '')]
      | FILE \<Rightarrow> [prefix @ ''- '' @ name]
      | BINARY \<Rightarrow> [prefix @ ''- '' @ name])
     @ render_lines items prefix"
  by pat_completeness auto
termination
  by (relation "measure (\<lambda>x. case x of
          Inl (tree, prefix) \<Rightarrow> Suc (size_list (size_prod (\<lambda>_. 0) size) tree)
        | Inr (tree, prefix) \<Rightarrow> size_list (size_prod (\<lambda>_. 0) size) tree)")
     auto

subsection \<open>gather\_file\_contents\<close>

definition fence_table :: "(string \<times> string) list" where
  "fence_table =
     [(''.py'', ''python''), (''.js'', ''javascript''), (''.ts'', ''typescript''),
      (''.json'', ''json''), (''.html'', ''html''), (''.css'', ''css'')]"

text \<open>\<open>fence_table.get(extension, "")\<close> on the lowered extension of \<open>name\<close>.\<close>

definition fence_lang :: "string \<Rightarrow> string" where
  "fence_lang name =
     (let extension = str_lower (splitext_ext name)
      in case map_of fence_table extension of None \<Rightarrow> [] | Some lang \<Rightarrow> lang)"

text \<open>The \<open>try\<close> block around the read: the text, or the message of the handler.\<close>

definition file_text :: "os \<Rightarrow> string \<Rightarrow> string" where
  "file_text sys full_path =
     (case open_text sys full_path of
        Inr text \<Rightarrow> text
      | Inl e \<Rightarrow> ''Could not read file: '' @ exn_str e)"

text \<open>
  \<open>gather_loop\<close> is the list \<open>contents\<close> that the loop fills, in the order of the
  \<open>append\<close> calls; \<open>gather_file_contents\<close> joins it. No exception leaves the function:
  the only fallible call, the read, is inside the \<open>try\<close> block.
\<close>

function gather_file_contents :: "os \<Rightarrow> pydict \<Rightarrow> string \<Rightarrow> string"
  and gather_loop :: "os \<Rightarrow> pydict \<Rightarrow> string \<Rightarrow> string list"
where
  "gather_file_contents sys tree parent_path =
     str_join ''\<newline>'' (gather_loop sys tree parent_path)"
| "gather_loop sys [] parent_path = []"
| "gather_loop sys ((name, val) # items) parent_path =
     (let full_path = os_path_join parent_path name in
      case val of
        Subtree sub \<Rightarrow> [gather_file_contents sys sub full_path]
      | FILE \<Rightarrow>
          [''## '' @ full_path @ ''\<newline>'',
           ''```'' @ fence_lang name,
           file_text sys full_path,
           ''```\<newline>'']
      | BINARY \<Rightarrow>
          [''## '' @ full_path @ ''\<newline>'',
           ''_(binary file, not included)_\<newline>''])
     @ gather_loop sys items parent_path"
  by pat_completeness auto
termination
  by (relation "measure (\<lambda>x. case x of
          Inl (sys, tree, parent) \<Rightarrow> Suc (size_list (size_prod (\<lambda>_. 0) size) tree)
        | Inr (sys, tree, parent) \<Rightarrow> size_list (size_prod (\<lambda>_. 0) size) tree)")
     auto

subsection \<open>main\<close>

text \<open>
  \<open>main sys\<close> is the text \<open>final_markdown\<close> that the run hands to the clipboard, or
  the exception that ends the run. Counting the tokens, the call of \<open>pbcopy\<close> and the
  two \<open>print\<close> calls come after the text is complete and do not change it.
\<close>

definition main :: "os \<Rightarrow> py_exception + string" where
  "main sys =
     (let root_dir = getcwd sys;
          gitignore_path = os_path_join root_dir ''.gitignore''
      in case load_gitignore_patterns sys gitignore_path of
           Inl e \<Rightarrow> Inl e
         | Inr spec \<Rightarrow>
             (case build_file_tree sys spec root_dir (fs_root sys) of
                Inl e \<Rightarrow> Inl e
              | Inr project_tree \<Rightarrow>
                  (let tree_section =
                         ''# Project Structure\<newline>\<newline>''
                         @ render_tree_markdown project_tree [];
                       contents_section =
                         ''\<newline>\<newline># File Contents\<newline>\<newline>''
                         @ gather_file_contents sys project_tree root_dir;
                       final_markdown = tree_section @ contents_section
                   in Inr (''<project>\<newline>'' @ final_markdown
                           @ ''\<newline></project>\<newline>''))))"

subsection \<open>Notions used by the properties\<close>

text \<open>The lines of a text, and those that are items of a Markdown list.\<close>

definition text_lines :: "string \<Rightarrow> string list" where
  "text_lines s = str_split CHR ''\<newline>'' s"

definition is_list_line :: "string \<Rightarrow> bool" where
  "is_list_line l = (take 2 (dropWhile (\<lambda>c. c = CHR '' '') l) = ''- '')"

definition list_lines :: "string \<Rightarrow> string list" where
  "list_lines s = filter is_list_line (text_lines s)"

text \<open>The paths of the lines of a text that start with \<open>## \<close>.\<close>

definition is_heading :: "string \<Rightarrow> bool" where
  "is_heading l = (take 3 l = ''## '')"

definition headings :: "string \<Rightarrow> string list" where
  "headings s = map (drop 3) (filter is_heading (text_lines s))"

text \<open>
  What \<open>os.listdir\<close> guarantees: the names of a directory are pairwise different.
\<close>

fun distinct_names :: "fsnode \<Rightarrow> bool" where
  "distinct_names (Dir es) =
     (distinct (map fst es) \<and> (\<forall>c \<in> snd ` set es. distinct_names c))"
| "distinct_names (DirUnlistable e) = True"
| "distinct_names NonDir = True"

text \<open>No name of the directory tree contains a line feed.\<close>

fun names_one_line :: "fsnode \<Rightarrow> bool" where
  "names_one_line (Dir es) =
     ((\<forall>n \<in> fst ` set es. CHR ''\<newline>'' \<notin> set n)
      \<and> (\<forall>c \<in> snd ` set es. names_one_line c))"
| "names_one_line (DirUnlistable e) = True"
| "names_one_line NonDir = True"

text \<open>
  An entry is left out of the tree when it is a directory with one of the two fixed
  names, or when the ignore rules match it.
\<close>

definition excluded :: "os \<Rightarrow> PathSpec option \<Rightarrow> string \<Rightarrow> string \<Rightarrow> fsnode \<Rightarrow> bool" where
  "excluded sys spec root name child =
     ((name \<in> skip_dirs \<and> os_path_isdir child)
      \<or> is_ignored sys (os_path_join root name) spec)"

text \<open>
  The listing the specification asks for, written from its words and not from the
  code: one line for each entry that is not left out, the entries of a directory in
  the lexicographic order of their names, and the entries of a subdirectory right below
  its line, one level deeper.
\<close>

fun spec_listing :: "os \<Rightarrow> PathSpec option \<Rightarrow> string \<Rightarrow> string \<Rightarrow> fsnode \<Rightarrow> string list" where
  "spec_listing sys spec root prefix (Dir es) =
     concat (map (\<lambda>(name, child).
                if excluded sys spec root name child then []
                else if os_path_isdir child
                  then (prefix @ ''- **'' @ name @ ''/**'')
                       # spec_listing sys spec (os_path_join root name) (prefix @ ''  '') child
                else [prefix @ ''- '' @ name])
             (sort_key fst es))"
| "spec_listing sys spec root prefix (DirUnlistable e) = []"
| "spec_listing sys spec root prefix NonDir = []"

text \<open>The keys of every dictionary of a tree are in strictly increasing order.\<close>

fun tree_sorted :: "tree \<Rightarrow> bool" where
  "tree_sorted (Subtree items) =
     (sorted_wrt (<) (map fst items) \<and> (\<forall>v \<in> snd ` set items. tree_sorted v))"
| "tree_sorted FILE = True"
| "tree_sorted BINARY = True"

text \<open>
  The leaves of a tree in the order of the traversal, each with the keys that lead to
  it from the top: its path relative to the root of the traversal, in components.
\<close>

fun tree_leaves :: "pydict \<Rightarrow> (string list \<times> tree) list" where
  "tree_leaves [] = []"
| "tree_leaves ((name, val) # items) =
     (case val of
        Subtree sub \<Rightarrow> map (\<lambda>(ks, v). (name # ks, v)) (tree_leaves sub)
      | FILE \<Rightarrow> [([name], FILE)]
      | BINARY \<Rightarrow> [([name], BINARY)])
     @ tree_leaves items"





text \<open>The document \<open>main\<close> assembles from a tree.\<close>

definition document :: "os \<Rightarrow> pydict \<Rightarrow> string" where
  "document sys project_tree =
     ''<project>\<newline>''
     @ (''# Project Structure\<newline>\<newline>'' @ render_tree_markdown project_tree [])
     @ (''\<newline>\<newline># File Contents\<newline>\<newline>''
        @ gather_file_contents sys project_tree (getcwd sys))
     @ ''\<newline></project>\<newline>''"

text \<open>
  What the gatherer writes for one leaf: the heading with the path, an empty line, and
  then the fenced text of the file, or the note that the file is binary.
\<close>

definition leaf_block :: "os \<Rightarrow> string \<Rightarrow> string \<Rightarrow> tree \<Rightarrow> string" where
  "leaf_block sys full_path name val =
     (case val of
        Subtree sub \<Rightarrow> []
      | FILE \<Rightarrow>
          ''## '' @ full_path @ ''\<newline>\<newline>```'' @ fence_lang name @ ''\<newline>''
          @ file_text sys full_path @ ''\<newline>```\<newline>''
      | BINARY \<Rightarrow>
          ''## '' @ full_path @ ''\<newline>\<newline>_(binary file, not included)_\<newline>'')"

text \<open>The line of the listing for one entry.\<close>

definition entry_lines ::
  "os \<Rightarrow> PathSpec option \<Rightarrow> string \<Rightarrow> string \<Rightarrow> (string \<times> fsnode) \<Rightarrow> string list" where
  "entry_lines sys spec root prefix e =
     (case e of (name, child) \<Rightarrow>
        if excluded sys spec root name child then []
        else if os_path_isdir child
          then (prefix @ ''- **'' @ name @ ''/**'')
               # spec_listing sys spec (os_path_join root name) (prefix @ ''  '') child
        else [prefix @ ''- '' @ name])"

text \<open>
  Two directory trees with the same content: the same names in every directory, with
  the same kind of entry and, for a subdirectory, the same content below each name. The
  order in which a directory lists its names is free.
\<close>

inductive same_fs :: "fsnode \<Rightarrow> fsnode \<Rightarrow> bool" where
  same_NonDir: "same_fs NonDir NonDir"
| same_DirUnlistable: "same_fs (DirUnlistable e) (DirUnlistable e)"
| same_Dir:
    "distinct (map fst es) \<Longrightarrow> distinct (map fst es') \<Longrightarrow>
     fst ` set es = fst ` set es' \<Longrightarrow>
     (\<And>n c c'. (n, c) \<in> set es \<Longrightarrow> (n, c') \<in> set es' \<Longrightarrow> same_fs c c') \<Longrightarrow>
     same_fs (Dir es) (Dir es')"

subsection \<open>Example systems\<close>

definition nul_os :: os where
  "nul_os =
     \<lparr>getcwd = ''/w'', fs_root = Dir [(''b.bin'', NonDir)],
      path_exists = (\<lambda>p. False),
      open_rb = (\<lambda>p. Inr [CHR ''a'', CHR 0x00, CHR 0x01]),
      open_text = (\<lambda>p. Inl (PyException ''invalid'')),
      pathspec_from_lines = (\<lambda>c. Inr (\<lambda>p. False))\<rparr>"

text \<open>A \<open>PathSpec\<close> that matches nothing, as the rule \<open>!.git\<close> alone gives.\<close>

definition never_match :: PathSpec where
  "never_match p = False"



text \<open>A directory without a \<open>.gitignore\<close>.\<close>

definition plain_os :: os where
  "plain_os =
     \<lparr>getcwd = ''/w'',
      fs_root = Dir [(''a.py'', NonDir)],
      path_exists = (\<lambda>p. False),
      open_rb = (\<lambda>p. Inr ''print(1)''),
      open_text = (\<lambda>p. Inr ''print(1)''),
      pathspec_from_lines = (\<lambda>c. Inr never_match)\<rparr>"

text \<open>The \<open>PathSpec\<close> of the single rule \<open>/a.txt\<close>.\<close>

definition match_a_txt :: PathSpec where
  "match_a_txt p = (p = ''a.txt'')"

text \<open>A directory with a Markdown file and a file that cannot be read as text.\<close>

definition md_os :: os where
  "md_os =
     \<lparr>getcwd = ''/w'',
      fs_root = Dir [(''b.py'', NonDir), (''a.md'', NonDir), (''c.bin'', NonDir)],
      path_exists = (\<lambda>p. False),
      open_rb = (\<lambda>p. if p = ''/w/c.bin'' then Inr [CHR 0x00] else Inr ''x''),
      open_text = (\<lambda>p. if p = ''/w/a.md'' \<or> p = ''/w/src/a.md'' then Inr ''```\<newline>## x\<newline>```''
                       else Inl (PyException ''gone'')),
      pathspec_from_lines = (\<lambda>c. Inr never_match)\<rparr>"

text \<open>The directory of \<open>md_os\<close>, listed in another order.\<close>

definition md_os_relisted :: os where
  "md_os_relisted =
     md_os\<lparr>fs_root := Dir [(''c.bin'', NonDir), (''b.py'', NonDir), (''a.md'', NonDir)]\<rparr>"

section \<open>Properties\<close>

subsection \<open>The content classifier\<close>

text \<open>
  C3. A file whose first 1024 bytes contain a NUL byte is classified as binary, whatever
  the rest of its content is.
\<close>

theorem is_binary_file_nul:
  assumes "open_rb sys filepath = Inr content"
    and "CHR 0x00 \<in> set (take 1024 content)"
  shows "is_binary_file sys filepath 1024"
  using assms by (simp add: is_binary_file_def)

theorem is_binary_file_nul_witness:
  "open_rb nul_os ''/w/b.bin'' = Inr [CHR ''a'', CHR 0x00, CHR 0x01]
   \<and> CHR 0x00 \<in> set (take 1024 [CHR ''a'', CHR 0x00, CHR 0x01])
   \<and> is_binary_file nul_os ''/w/b.bin'' 1024"
proof -
  have a: "open_rb nul_os ''/w/b.bin'' = Inr [CHR ''a'', CHR 0x00, CHR 0x01]"
    by (simp add: nul_os_def)
  have b: "CHR 0x00 \<in> set (take 1024 [CHR ''a'', CHR 0x00, CHR 0x01])"
    by simp
  from is_binary_file_nul [OF a b] a b show ?thesis by simp
qed

subsection \<open>The loop of build\_file\_tree, case by case\<close>

lemma build_loop_skip:
  "entry \<in> skip_dirs \<and> os_path_isdir child \<Longrightarrow>
   build_loop sys spec root ((entry, child) # rest) tree = build_loop sys spec root rest tree"
  by simp

lemma build_loop_ignored:
  "is_ignored sys (os_path_join root entry) spec \<Longrightarrow>
   build_loop sys spec root ((entry, child) # rest) tree = build_loop sys spec root rest tree"
  by (simp add: Let_def)

lemma build_loop_dir:
  "\<not> (entry \<in> skip_dirs \<and> os_path_isdir child) \<Longrightarrow>
   \<not> is_ignored sys (os_path_join root entry) spec \<Longrightarrow> os_path_isdir child \<Longrightarrow>
   build_loop sys spec root ((entry, child) # rest) tree =
     (case build_file_tree sys spec (os_path_join root entry) child of
        Inl e \<Rightarrow> Inl e
      | Inr sub \<Rightarrow> build_loop sys spec root rest (dict_set tree entry (Subtree sub)))"
  by (simp add: Let_def)

lemma build_loop_file:
  "\<not> is_ignored sys (os_path_join root entry) spec \<Longrightarrow> \<not> os_path_isdir child \<Longrightarrow>
   build_loop sys spec root ((entry, child) # rest) tree =
     build_loop sys spec root rest
       (dict_set tree entry
          (if is_binary_file sys (os_path_join root entry) 1024 then BINARY else FILE))"
  by (simp add: Let_def)

subsection \<open>The two fixed directory names\<close>







subsection \<open>The ignore file\<close>


lemma main_document:
  "main sys =
     (case load_gitignore_patterns sys (os_path_join (getcwd sys) ''.gitignore'') of
        Inl e \<Rightarrow> Inl e
      | Inr spec \<Rightarrow>
          (case build_file_tree sys spec (getcwd sys) (fs_root sys) of
             Inl e \<Rightarrow> Inl e
           | Inr project_tree \<Rightarrow> Inr (document sys project_tree)))"
  by (simp add: main_def document_def Let_def split: sum.splits)




subsection \<open>Paths are matched relative to the working directory\<close>

text \<open>
  C10. \<open>is_ignored\<close> hands to the specification the path made relative to
  \<open>os.getcwd()\<close>; the root of the traversal is no argument of it. With the rule
  \<open>/a.txt\<close> and the file \<open>/w/sub/a.txt\<close>, a traversal of \<open>/w/sub\<close> keeps the file
  when the working directory is \<open>/w\<close> (the rule sees \<open>sub/a.txt\<close>), and drops it when
  the working directory is the root \<open>/w/sub\<close> of the traversal, as in \<open>main\<close>.
\<close>

theorem is_ignored_relative_to_cwd:
  "is_ignored sys filepath (Some match_file)
     = match_file (os_path_relpath (getcwd sys) filepath (getcwd sys))
   \<and> build_file_tree (plain_os\<lparr>getcwd := ''/w''\<rparr>) (Some match_a_txt) ''/w/sub''
         (Dir [(''a.txt'', NonDir)]) = Inr [(''a.txt'', FILE)]
   \<and> build_file_tree (plain_os\<lparr>getcwd := ''/w/sub''\<rparr>) (Some match_a_txt) ''/w/sub''
         (Dir [(''a.txt'', NonDir)]) = Inr []"
proof -
  have "build_file_tree (plain_os\<lparr>getcwd := ''/w''\<rparr>) (Some match_a_txt) ''/w/sub''
         (Dir [(''a.txt'', NonDir)]) = Inr [(''a.txt'', FILE)]"
    by code_simp
  moreover have "build_file_tree (plain_os\<lparr>getcwd := ''/w/sub''\<rparr>) (Some match_a_txt)
         ''/w/sub'' (Dir [(''a.txt'', NonDir)]) = Inr []"
    by code_simp
  ultimately show ?thesis by (simp add: is_ignored_def)
qed

theorem is_ignored_relative_to_cwd_witness:
  "is_ignored (plain_os\<lparr>getcwd := ''/w''\<rparr>) ''/w/sub/a.txt'' (Some match_a_txt)
     = match_a_txt ''sub/a.txt''
   \<and> is_ignored (plain_os\<lparr>getcwd := ''/w''\<rparr>) ''/w/sub/a.txt'' (Some match_a_txt) = False"
proof -
  have "os_path_relpath ''/w'' ''/w/sub/a.txt'' ''/w'' = ''sub/a.txt''" by code_simp
  with is_ignored_relative_to_cwd [of "plain_os\<lparr>getcwd := ''/w''\<rparr>" "''/w/sub/a.txt''" match_a_txt]
  show ?thesis by (simp add: match_a_txt_def)
qed

subsection \<open>The gatherer\<close>

lemma str_join_append:
  "str_join sep (a @ b) =
     (if a = [] then str_join sep b
      else if b = [] then str_join sep a
      else str_join sep a @ sep @ str_join sep b)"
  by (induction sep a rule: str_join.induct) (auto simp: neq_Nil_conv)

lemma str_join_mid: "\<exists>pre post. str_join sep (a @ m @ b) = pre @ str_join sep m @ post"
proof -
  have "\<exists>post. str_join sep (m @ b) = str_join sep m @ post"
    by (cases "m = []"; cases "b = []") (simp_all add: str_join_append)
  then obtain post where p: "str_join sep (m @ b) = str_join sep m @ post" by blast
  show ?thesis
  proof (cases "a = []")
    case True
    then have "str_join sep (a @ m @ b) = [] @ str_join sep m @ post" using p by simp
    then show ?thesis by blast
  next
    case a: False
    show ?thesis
    proof (cases "m @ b = []")
      case True
      then have "str_join sep (a @ m @ b) = str_join sep a @ str_join sep m @ []" by simp
      then show ?thesis by blast
    next
      case False
      with a have "str_join sep (a @ (m @ b)) = str_join sep a @ sep @ str_join sep (m @ b)"
        by (simp only: str_join_append [of sep a "m @ b"] if_False)
      then have "str_join sep (a @ m @ b) = (str_join sep a @ sep) @ str_join sep m @ post"
        using p by simp
      then show ?thesis by blast
    qed
  qed
qed

lemma tree_leaves_keys: "(ks, v) \<in> set (tree_leaves tree) \<Longrightarrow> ks \<noteq> []"
  by (induction tree arbitrary: ks rule: tree_leaves.induct) (auto split: tree.splits)

lemma tree_leaves_leaf: "(ks, v) \<in> set (tree_leaves tree) \<Longrightarrow> v = FILE \<or> v = BINARY"
  by (induction tree arbitrary: ks rule: tree_leaves.induct) (auto split: tree.splits)

lemma gather_loop_Cons:
  "gather_loop sys ((name, val) # items) parent =
     (case val of
        Subtree sub \<Rightarrow> [gather_file_contents sys sub (os_path_join parent name)]
      | FILE \<Rightarrow>
          [''## '' @ os_path_join parent name @ ''\<newline>'', ''```'' @ fence_lang name,
           file_text sys (os_path_join parent name), ''```\<newline>'']
      | BINARY \<Rightarrow>
          [''## '' @ os_path_join parent name @ ''\<newline>'',
           ''_(binary file, not included)_\<newline>''])
     @ gather_loop sys items parent"
  by (simp add: Let_def)

lemma gather_leaf_block:
  "(ks, v) \<in> set (tree_leaves tree) \<Longrightarrow>
   \<exists>pre post. gather_file_contents sys tree parent
      = pre @ leaf_block sys (foldl os_path_join parent ks) (last ks) v @ post"
proof (induction tree arbitrary: parent ks rule: tree_leaves.induct)
  case 1
  then show ?case by simp
next
  case (2 name val items)
  let ?full = "os_path_join parent name"
  let ?J = "str_join ''\<newline>''"
  have g: "gather_file_contents sys ((name, val) # items) parent
             = ?J (gather_loop sys ((name, val) # items) parent)"
    by (simp only: gather_file_contents.simps)
  consider (items) "(ks, v) \<in> set (tree_leaves items)"
    | (sub) sub ks' where "val = Subtree sub" and "ks = name # ks'"
        and "(ks', v) \<in> set (tree_leaves sub)"
    | (textfile) "val = FILE" and "ks = [name]" and "v = FILE"
    | (binfile) "val = BINARY" and "ks = [name]" and "v = BINARY"
    using "2.prems" by (auto split: tree.splits)
  then show ?case
  proof cases
    case items
    from "2.IH"(2) [OF this, of parent] obtain pre post where
      e: "?J (gather_loop sys items parent)
            = pre @ leaf_block sys (foldl os_path_join parent ks) (last ks) v @ post"
      by (auto simp only: gather_file_contents.simps)
    obtain x where "gather_loop sys ((name, val) # items) parent = x @ gather_loop sys items parent @ []"
      by (simp add: gather_loop_Cons del: gather_loop.simps)
    with str_join_mid [of "''\<newline>''" x "gather_loop sys items parent" "[]"]
    obtain p q where "?J (gather_loop sys ((name, val) # items) parent)
        = p @ ?J (gather_loop sys items parent) @ q" by auto
    then have "gather_file_contents sys ((name, val) # items) parent
        = (p @ pre) @ leaf_block sys (foldl os_path_join parent ks) (last ks) v @ (post @ q)"
      using e g by simp
    then show ?thesis by blast
  next
    case sub
    from "2.IH"(1) [OF sub(1) sub(3), of ?full] obtain pre post where
      e: "gather_file_contents sys sub ?full
            = pre @ leaf_block sys (foldl os_path_join ?full ks') (last ks') v @ post"
      by blast
    have k: "ks' \<noteq> []" using sub(3) by (rule tree_leaves_keys)
    have "gather_loop sys ((name, val) # items) parent
            = [] @ [gather_file_contents sys sub ?full] @ gather_loop sys items parent"
      using sub(1) by (simp add: gather_loop_Cons del: gather_loop.simps gather_file_contents.simps)
    with str_join_mid [of "''\<newline>''" "[]" "[gather_file_contents sys sub ?full]"
        "gather_loop sys items parent"]
    obtain p q where "?J (gather_loop sys ((name, val) # items) parent)
        = p @ gather_file_contents sys sub ?full @ q"
      by (auto simp del: gather_loop.simps gather_file_contents.simps)
    then have "gather_file_contents sys ((name, val) # items) parent
        = (p @ pre) @ leaf_block sys (foldl os_path_join parent ks) (last ks) v @ (post @ q)"
      using e g k sub(2) by simp
    then show ?thesis by blast
  next
    case textfile
    let ?X = "[''## '' @ ?full @ ''\<newline>'', ''```'' @ fence_lang name,
               file_text sys ?full, ''```\<newline>'']"
    have "gather_loop sys ((name, val) # items) parent = [] @ ?X @ gather_loop sys items parent"
      using textfile(1) by (simp add: gather_loop_Cons del: gather_loop.simps)
    with str_join_mid [of "''\<newline>''" "[]" ?X "gather_loop sys items parent"]
    obtain p q where "?J (gather_loop sys ((name, val) # items) parent) = p @ ?J ?X @ q"
      by (auto simp del: gather_loop.simps)
    moreover have "?J ?X = leaf_block sys (foldl os_path_join parent ks) (last ks) v"
      using textfile by (simp add: leaf_block_def)
    ultimately show ?thesis using g by metis
  next
    case binfile
    let ?X = "[''## '' @ ?full @ ''\<newline>'', ''_(binary file, not included)_\<newline>'']"
    have "gather_loop sys ((name, val) # items) parent = [] @ ?X @ gather_loop sys items parent"
      using binfile(1) by (simp add: gather_loop_Cons del: gather_loop.simps)
    with str_join_mid [of "''\<newline>''" "[]" ?X "gather_loop sys items parent"]
    obtain p q where "?J (gather_loop sys ((name, val) # items) parent) = p @ ?J ?X @ q"
      by (auto simp del: gather_loop.simps)
    moreover have "?J ?X = leaf_block sys (foldl os_path_join parent ks) (last ks) v"
      using binfile by (simp add: leaf_block_def)
    ultimately show ?thesis using g by metis
  qed
qed







text \<open>
  C6. When the read of a \<open>'FILE'\<close> leaf raises, the gathered text contains the block
  of that leaf with the message \<open>Could not read file: \<close> and the text of the exception
  in the place of the content; and the block of every leaf of the tree is in the
  gathered text all the same. \<open>gather_file_contents\<close> always returns a text: the read
  is its only call that can raise, and the handler catches every exception.
\<close>

theorem gather_read_failure:
  assumes "(ks, FILE) \<in> set (tree_leaves tree)"
    and "open_text sys (foldl os_path_join parent_path ks) = Inl e"
  shows "(\<exists>before after.
            gather_file_contents sys tree parent_path
              = before
                @ ''## '' @ foldl os_path_join parent_path ks @ ''\<newline>''
                @ ''\<newline>''
                @ ''```'' @ fence_lang (last ks) @ ''\<newline>''
                @ ''Could not read file: '' @ exn_str e @ ''\<newline>''
                @ ''```\<newline>''
                @ after)
         \<and> (\<forall>(ks', v') \<in> set (tree_leaves tree).
               \<exists>before after.
                 gather_file_contents sys tree parent_path
                   = before
                     @ leaf_block sys (foldl os_path_join parent_path ks') (last ks') v'
                     @ after)"
proof -
  from gather_leaf_block [OF assms(1), of sys parent_path] obtain pre post where
    "gather_file_contents sys tree parent_path
       = pre @ leaf_block sys (foldl os_path_join parent_path ks) (last ks) FILE @ post"
    by blast
  then have "gather_file_contents sys tree parent_path
              = pre
                @ ''## '' @ foldl os_path_join parent_path ks @ ''\<newline>''
                @ ''\<newline>''
                @ ''```'' @ fence_lang (last ks) @ ''\<newline>''
                @ ''Could not read file: '' @ exn_str e @ ''\<newline>''
                @ ''```\<newline>''
                @ post"
    using assms(2) by (simp add: leaf_block_def file_text_def)
  then have "\<exists>before after.
            gather_file_contents sys tree parent_path
              = before
                @ ''## '' @ foldl os_path_join parent_path ks @ ''\<newline>''
                @ ''\<newline>''
                @ ''```'' @ fence_lang (last ks) @ ''\<newline>''
                @ ''Could not read file: '' @ exn_str e @ ''\<newline>''
                @ ''```\<newline>''
                @ after"
    by blast
  moreover have "\<forall>(ks', v') \<in> set (tree_leaves tree).
               \<exists>before after.
                 gather_file_contents sys tree parent_path
                   = before
                     @ leaf_block sys (foldl os_path_join parent_path ks') (last ks') v'
                     @ after"
    using gather_leaf_block [of _ _ tree sys parent_path] by blast
  ultimately show ?thesis by blast
qed

theorem gather_read_failure_witness:
  "([''b.py''], FILE) \<in> set (tree_leaves [(''a.md'', FILE), (''b.py'', FILE), (''c.bin'', BINARY)])
   \<and> open_text md_os (foldl os_path_join ''/w'' [''b.py'']) = Inl (PyException ''gone'')
   \<and> (\<exists>before after.
         gather_file_contents md_os [(''a.md'', FILE), (''b.py'', FILE), (''c.bin'', BINARY)] ''/w''
           = before
             @ ''## /w/b.py\<newline>\<newline>```python\<newline>Could not read file: gone\<newline>```\<newline>''
             @ after)
   \<and> (\<exists>before after.
         gather_file_contents md_os [(''a.md'', FILE), (''b.py'', FILE), (''c.bin'', BINARY)] ''/w''
           = before @ ''## /w/c.bin\<newline>\<newline>_(binary file, not included)_\<newline>'' @ after)"
proof -
  let ?t = "[(''a.md'', FILE), (''b.py'', FILE), (''c.bin'', BINARY)]"
  have a: "([''b.py''], FILE) \<in> set (tree_leaves ?t)" by simp
  have b: "open_text md_os (foldl os_path_join ''/w'' [''b.py'']) = Inl (PyException ''gone'')"
    by (simp add: md_os_def os_path_join_def)
  have c: "foldl os_path_join ''/w'' [''b.py''] = ''/w/b.py''"
    "foldl os_path_join ''/w'' [''c.bin''] = ''/w/c.bin''"
    by (simp_all add: os_path_join_def)
  have d: "fence_lang ''b.py'' = ''python''" by code_simp
  have e: "([''c.bin''], BINARY) \<in> set (tree_leaves ?t)" by simp
  note th = gather_read_failure [OF a b]
  from th have "\<exists>before after.
         gather_file_contents md_os ?t ''/w''
           = before
             @ ''## /w/b.py\<newline>\<newline>```python\<newline>Could not read file: gone\<newline>```\<newline>''
             @ after"
    unfolding c by (simp add: d)
  moreover from th e have "\<exists>before after.
         gather_file_contents md_os ?t ''/w''
           = before @ leaf_block md_os (foldl os_path_join ''/w'' [''c.bin'']) (last [''c.bin'']) BINARY
             @ after"
    by blast
  then have "\<exists>before after.
         gather_file_contents md_os ?t ''/w''
           = before @ ''## /w/c.bin\<newline>\<newline>_(binary file, not included)_\<newline>'' @ after"
    unfolding c by (simp add: leaf_block_def)
  ultimately show ?thesis using a b by blast
qed

subsection \<open>The headings of the gathered text\<close>

lemma str_split_not_Nil: "str_split c s \<noteq> []"
  by (induction s) (auto split: list.splits)

lemma str_split_append: "str_split c (a @ c # b) = str_split c a @ str_split c b"
proof (induction a)
  case Nil
  show ?case by simp
next
  case (Cons x a)
  obtain w ws where "str_split c a = w # ws"
    using str_split_not_Nil [of c a] by (cases "str_split c a") auto
  with Cons show ?case by simp
qed

lemma str_split_no_sep: "c \<notin> set s \<Longrightarrow> str_split c s = [s]"
  by (induction s) auto

lemma headings_Nil: "headings [] = []"
  by (simp add: headings_def text_lines_def is_heading_def)

lemma headings_append:
  "headings (a @ CHR ''\<newline>'' # b) = headings a @ headings b"
  by (simp add: headings_def text_lines_def str_split_append)

lemma headings_join: "headings (str_join ''\<newline>'' xs) = concat (map headings xs)"
proof (induction "''\<newline>''" xs rule: str_join.induct)
  case 1
  show ?case by (simp add: headings_Nil)
next
  case (2 x)
  show ?case by simp
next
  case (3 x y ys)
  have "str_join ''\<newline>'' (x # y # ys) = x @ CHR ''\<newline>'' # str_join ''\<newline>'' (y # ys)"
    by simp
  then show ?case using 3 by (simp only: headings_append) simp
qed

lemma headings_heading:
  "CHR ''\<newline>'' \<notin> set p \<Longrightarrow> headings (''## '' @ p @ ''\<newline>'') = [p]"
proof -
  assume "CHR ''\<newline>'' \<notin> set p"
  then have "CHR ''\<newline>'' \<notin> set (''## '' @ p)" by simp
  then have "str_split CHR ''\<newline>'' (''## '' @ p) = [''## '' @ p]" by (rule str_split_no_sep)
  then have "headings (''## '' @ p) = [p]"
    by (simp add: headings_def text_lines_def is_heading_def)
  moreover have "headings ((''## '' @ p) @ CHR ''\<newline>'' # []) = headings (''## '' @ p) @ headings []"
    by (rule headings_append)
  ultimately show ?thesis by (simp add: headings_Nil)
qed

lemma fence_lang_cases:
  "fence_lang name \<in> {[], ''python'', ''javascript'', ''typescript'', ''json'', ''html'', ''css''}"
  by (auto simp: fence_lang_def fence_table_def Let_def split: option.splits if_splits)

lemma headings_fence: "headings (''```'' @ fence_lang name) = []"
  using fence_lang_cases [of name]
  by (auto simp: headings_def text_lines_def is_heading_def)

lemma headings_heading_Cons:
  "CHR ''\<newline>'' \<notin> set p \<Longrightarrow>
   headings (CHR ''#'' # CHR ''#'' # CHR '' '' # p @ ''\<newline>'') = [p]"
  using headings_heading [of p] by simp

lemma headings_fence_Cons: "headings (CHR 0x60 # CHR 0x60 # CHR 0x60 # fence_lang name) = []"
  using headings_fence [of name] by simp

lemma headings_fixed:
  "headings ''```\<newline>'' = []" "headings ''_(binary file, not included)_\<newline>'' = []"
  by (simp_all add: headings_def text_lines_def is_heading_def)

text \<open>
  C8 as stated fails: the text of a file goes into the output as it is,
  so a line of the file that starts with \<open>## \<close> is one more heading line of the
  File Contents section, and it is the path of no leaf. (Here the file also closes the
  fence before that line.)
\<close>

theorem file_text_adds_heading:
  "build_file_tree md_os None ''/w'' (fs_root md_os)
     = Inr [(''a.md'', FILE), (''b.py'', FILE), (''c.bin'', BINARY)]
   \<and> tree_leaves [(''a.md'', FILE), (''b.py'', FILE), (''c.bin'', BINARY)]
       = [([''a.md''], FILE), ([''b.py''], FILE), ([''c.bin''], BINARY)]
   \<and> headings (gather_file_contents md_os
                  [(''a.md'', FILE), (''b.py'', FILE), (''c.bin'', BINARY)] ''/w'')
       = [''/w/a.md'', ''x'', ''/w/b.py'', ''/w/c.bin'']"
proof -
  have "build_file_tree md_os None ''/w'' (fs_root md_os)
     = Inr [(''a.md'', FILE), (''b.py'', FILE), (''c.bin'', BINARY)]"
    by code_simp
  moreover have "headings (gather_file_contents md_os
                  [(''a.md'', FILE), (''b.py'', FILE), (''c.bin'', BINARY)] ''/w'')
       = [''/w/a.md'', ''x'', ''/w/b.py'', ''/w/c.bin'']"
    by code_simp
  ultimately show ?thesis by simp
qed

text \<open>
  C8, amended. If no path of a leaf contains a line feed and no text put into a fenced
  block (the text read, or the message of a failed read) has a line that starts with
  \<open>## \<close>, then the heading lines of the gathered text are the paths of the leaves of
  the tree, one heading for each \<open>'FILE'\<close> and each \<open>'BINARY'\<close> leaf, in the order
  of the traversal, and nothing else.
\<close>

theorem gather_headings_leaves:
  assumes "\<forall>(ks, v) \<in> set (tree_leaves tree).
             CHR ''\<newline>'' \<notin> set (foldl os_path_join parent ks)
             \<and> (v = FILE \<longrightarrow> headings (file_text sys (foldl os_path_join parent ks)) = [])"
  shows "headings (gather_file_contents sys tree parent)
           = map (\<lambda>(ks, v). foldl os_path_join parent ks) (tree_leaves tree)"
  using assms
proof (induction tree arbitrary: parent rule: tree_leaves.induct)
  case 1
  show ?case by (simp add: headings_Nil)
next
  case (2 name val items)
  let ?full = "os_path_join parent name"
  have rest: "concat (map headings (gather_loop sys items parent))
                = map (\<lambda>(ks, v). foldl os_path_join parent ks) (tree_leaves items)"
    using "2.IH"(2) [of parent] "2.prems"
    by (simp add: headings_join del: gather_loop.simps)
  have split: "headings (gather_file_contents sys ((name, val) # items) parent)
      = concat (map headings
          (case val of
             Subtree sub \<Rightarrow> [gather_file_contents sys sub ?full]
           | FILE \<Rightarrow> [''## '' @ ?full @ ''\<newline>'', ''```'' @ fence_lang name,
                      file_text sys ?full, ''```\<newline>'']
           | BINARY \<Rightarrow> [''## '' @ ?full @ ''\<newline>'', ''_(binary file, not included)_\<newline>'']))
        @ concat (map headings (gather_loop sys items parent))"
    by (simp only: gather_file_contents.simps headings_join gather_loop_Cons map_append
        concat_append)
  show ?case
  proof (cases val)
    case (Subtree sub)
    have "\<forall>(ks, v) \<in> set (tree_leaves sub).
             CHR ''\<newline>'' \<notin> set (foldl os_path_join ?full ks)
             \<and> (v = FILE \<longrightarrow> headings (file_text sys (foldl os_path_join ?full ks)) = [])"
    proof (clarify)
      fix ks v
      assume "(ks, v) \<in> set (tree_leaves sub)"
      then have "(name # ks, v) \<in> set (tree_leaves ((name, val) # items))"
        using Subtree by force
      with "2.prems" have "case (name # ks, v) of (ks, v) \<Rightarrow>
             CHR ''\<newline>'' \<notin> set (foldl os_path_join parent ks)
             \<and> (v = FILE \<longrightarrow> headings (file_text sys (foldl os_path_join parent ks)) = [])"
        by (rule bspec)
      then show "CHR ''\<newline>'' \<notin> set (foldl os_path_join ?full ks)
             \<and> (v = FILE \<longrightarrow> headings (file_text sys (foldl os_path_join ?full ks)) = [])"
        by simp
    qed
    from "2.IH"(1) [OF Subtree this]
    show ?thesis using split rest Subtree
      by (simp add: comp_def case_prod_beta del: gather_file_contents.simps gather_loop.simps)
  next
    case FILE
    have "CHR ''\<newline>'' \<notin> set ?full" "headings (file_text sys ?full) = []"
      using "2.prems" FILE by auto
    then show ?thesis using split rest FILE
      by (simp add: headings_heading_Cons headings_fence_Cons headings_fixed
          del: gather_file_contents.simps gather_loop.simps)
  next
    case BINARY
    have "CHR ''\<newline>'' \<notin> set ?full" using "2.prems" BINARY by auto
    then show ?thesis using split rest BINARY
      by (simp add: headings_heading_Cons headings_fixed
          del: gather_file_contents.simps gather_loop.simps)
  qed
qed

theorem gather_headings_leaves_witness:
  "headings (gather_file_contents plain_os
       [(''c.bin'', BINARY), (''src'', Subtree [(''a.py'', FILE)])] ''/w'')
     = [''/w/c.bin'', ''/w/src/a.py'']"
proof -
  let ?t = "[(''c.bin'', BINARY), (''src'', Subtree [(''a.py'', FILE)])]"
  have p: "os_path_join ''/w'' ''c.bin'' = ''/w/c.bin''"
    "os_path_join (os_path_join ''/w'' ''src'') ''a.py'' = ''/w/src/a.py''"
    by (simp_all add: os_path_join_def)
  have h: "headings (file_text plain_os ''/w/src/a.py'') = []"
    by (simp add: file_text_def plain_os_def headings_def text_lines_def is_heading_def)
  have "\<forall>(ks, v) \<in> set (tree_leaves ?t).
          CHR ''\<newline>'' \<notin> set (foldl os_path_join ''/w'' ks)
          \<and> (v = FILE \<longrightarrow> headings (file_text plain_os (foldl os_path_join ''/w'' ks)) = [])"
    by (simp add: p h)
  from gather_headings_leaves [OF this] show ?thesis by (simp add: p)
qed

subsection \<open>The loop of build\_file\_tree without the accumulator\<close>

lemma dict_set_fresh: "k \<notin> fst ` set d \<Longrightarrow> dict_set d k v = d @ [(k, v)]"
  by (induction d k v rule: dict_set.induct) auto

lemma build_loop_acc:
  "distinct (map fst es) \<Longrightarrow> fst ` set es \<inter> fst ` set acc = {} \<Longrightarrow>
   build_loop sys spec root es acc =
     (case build_loop sys spec root es [] of Inl e \<Rightarrow> Inl e | Inr r \<Rightarrow> Inr (acc @ r))"
proof (induction es arbitrary: acc)
  case Nil
  show ?case by simp
next
  case (Cons a es)
  obtain entry child where a: "a = (entry, child)" by (cases a)
  let ?path = "os_path_join root entry"
  have d: "distinct (map fst es)" and f: "entry \<notin> fst ` set es"
    and g: "entry \<notin> fst ` set acc" and h: "fst ` set es \<inter> fst ` set acc = {}"
    using Cons.prems a by auto
  have step: "build_loop sys spec root es (dict_set acc entry v)
      = (case build_loop sys spec root es (dict_set [] entry v) of
           Inl e \<Rightarrow> Inl e | Inr r \<Rightarrow> Inr (acc @ r))" for v
  proof -
    have 1: "fst ` set es \<inter> fst ` set (acc @ [(entry, v)]) = {}" using h f by auto
    have 2: "fst ` set es \<inter> fst ` set [(entry, v)] = {}" using f by auto
    have "build_loop sys spec root es (acc @ [(entry, v)])
        = (case build_loop sys spec root es [] of
             Inl e \<Rightarrow> Inl e | Inr r \<Rightarrow> Inr ((acc @ [(entry, v)]) @ r))"
      using Cons.IH [OF d 1] .
    moreover have "build_loop sys spec root es [(entry, v)]
        = (case build_loop sys spec root es [] of
             Inl e \<Rightarrow> Inl e | Inr r \<Rightarrow> Inr ([(entry, v)] @ r))"
      using Cons.IH [OF d 2] .
    ultimately show ?thesis
      using g by (simp add: dict_set_fresh split: sum.splits)
  qed
  show ?case
  proof (cases "entry \<in> skip_dirs \<and> os_path_isdir child")
    case True
    show ?thesis unfolding a build_loop_skip [OF True] using Cons.IH [OF d h] .
  next
    case ns: False
    show ?thesis
    proof (cases "is_ignored sys ?path spec")
      case True
      show ?thesis unfolding a build_loop_ignored [OF True] using Cons.IH [OF d h] .
    next
      case ni: False
      show ?thesis
      proof (cases "os_path_isdir child")
        case True
        show ?thesis unfolding a build_loop_dir [OF ns ni True]
          by (cases "build_file_tree sys spec ?path child") (simp_all add: step del: dict_set.simps)
      next
        case False
        show ?thesis unfolding a build_loop_file [OF ni False] by (rule step)
      qed
    qed
  qed
qed

lemma build_loop_dir_Nil:
  assumes "distinct (map fst ((entry, child) # rest))"
    and "\<not> excluded sys spec root entry child" and "os_path_isdir child"
  shows "build_loop sys spec root ((entry, child) # rest) [] =
     (case build_file_tree sys spec (os_path_join root entry) child of
        Inl e \<Rightarrow> Inl e
      | Inr sub \<Rightarrow>
          (case build_loop sys spec root rest [] of
             Inl e \<Rightarrow> Inl e
           | Inr r \<Rightarrow> Inr ((entry, Subtree sub) # r)))"
proof -
  have ns: "\<not> (entry \<in> skip_dirs \<and> os_path_isdir child)"
    and ni: "\<not> is_ignored sys (os_path_join root entry) spec"
    using assms(2) by (auto simp: excluded_def)
  have d: "distinct (map fst rest)" using assms(1) by simp
  have "fst ` set rest \<inter> fst ` set [(entry, v)] = {}" for v :: tree
    using assms(1) by auto
  from build_loop_acc [OF d this] show ?thesis
    unfolding build_loop_dir [OF ns ni assms(3)] by (simp split: sum.splits)
qed

lemma build_loop_file_Nil:
  assumes "distinct (map fst ((entry, child) # rest))"
    and "\<not> excluded sys spec root entry child" and "\<not> os_path_isdir child"
  shows "build_loop sys spec root ((entry, child) # rest) [] =
     (case build_loop sys spec root rest [] of
        Inl e \<Rightarrow> Inl e
      | Inr r \<Rightarrow>
          Inr ((entry, if is_binary_file sys (os_path_join root entry) 1024
                       then BINARY else FILE) # r))"
proof -
  have ni: "\<not> is_ignored sys (os_path_join root entry) spec"
    using assms(2) by (auto simp: excluded_def)
  have d: "distinct (map fst rest)" using assms(1) by simp
  have "fst ` set rest \<inter> fst ` set [(entry, v)] = {}" for v :: tree
    using assms(1) by auto
  from build_loop_acc [OF d this] show ?thesis
    unfolding build_loop_file [OF ni assms(3)] by (simp split: sum.splits)
qed

lemma build_loop_excluded:
  assumes "excluded sys spec root entry child"
  shows "build_loop sys spec root ((entry, child) # rest) tree
           = build_loop sys spec root rest tree"
  using assms build_loop_skip [of entry child sys spec root rest tree]
    build_loop_ignored [of sys root entry spec child rest tree]
  by (auto simp: excluded_def)

subsection \<open>The rendered listing\<close>

lemma list_lines_Nil: "list_lines [] = []"
  by (simp add: list_lines_def text_lines_def is_list_line_def)

lemma list_lines_append:
  "list_lines (a @ CHR ''\<newline>'' # b) = list_lines a @ list_lines b"
  by (simp add: list_lines_def text_lines_def str_split_append)

lemma list_lines_join: "list_lines (str_join ''\<newline>'' xs) = concat (map list_lines xs)"
proof (induction "''\<newline>''" xs rule: str_join.induct)
  case 1
  show ?case by (simp add: list_lines_Nil)
next
  case (2 x)
  show ?case by simp
next
  case (3 x y ys)
  have "str_join ''\<newline>'' (x # y # ys) = x @ CHR ''\<newline>'' # str_join ''\<newline>'' (y # ys)"
    by simp
  then show ?case using 3 by (simp only: list_lines_append) simp
qed

lemma list_lines_item:
  assumes "set prefix \<subseteq> {CHR '' ''}" and "CHR ''\<newline>'' \<notin> set rest"
  shows "list_lines (prefix @ ''- '' @ rest) = [prefix @ ''- '' @ rest]"
proof -
  have "CHR ''\<newline>'' \<notin> set (prefix @ ''- '' @ rest)" using assms by auto
  then have "text_lines (prefix @ ''- '' @ rest) = [prefix @ ''- '' @ rest]"
    unfolding text_lines_def by (rule str_split_no_sep)
  moreover have "dropWhile (\<lambda>c. c = CHR '' '') (prefix @ ''- '' @ rest) = ''- '' @ rest"
    using assms(1) by (induction prefix) auto
  then have "is_list_line (prefix @ ''- '' @ rest)" by (simp add: is_list_line_def)
  ultimately show ?thesis by (simp add: list_lines_def)
qed

lemma list_lines_dir:
  assumes "set prefix \<subseteq> {CHR '' ''}" and "CHR ''\<newline>'' \<notin> set name"
  shows "list_lines (prefix @ ''- **'' @ name @ ''/**'') = [prefix @ ''- **'' @ name @ ''/**'']"
  using list_lines_item [OF assms(1), of "''**'' @ name @ ''/**''"] assms(2) by simp

lemma strict_sorted_sort_key:
  assumes "distinct (map fst es)"
  shows "sorted_wrt (<) (map fst (sort_key fst es))"
proof -
  have "distinct es" "inj_on fst (set es)" using assms by (auto simp: distinct_map)
  then have "distinct (map fst (sort_key fst es))" by (simp add: distinct_map)
  moreover have "sorted (map fst (sort_key fst es))" by (rule sorted_sort_key)
  ultimately show ?thesis by (simp add: strict_sorted_iff)
qed

lemma strict_sorted_distinct:
  fixes xs :: "string list"
  shows "sorted_wrt (<) xs \<Longrightarrow> distinct xs"
  by (simp add: strict_sorted_iff)

lemma spec_listing_Dir:
  "spec_listing sys spec root prefix (Dir es)
     = concat (map (entry_lines sys spec root prefix) (sort_key fst es))"
proof -
  have "entry_lines sys spec root prefix
          = (\<lambda>(name, child).
                if excluded sys spec root name child then []
                else if os_path_isdir child
                  then (prefix @ ''- **'' @ name @ ''/**'')
                       # spec_listing sys spec (os_path_join root name) (prefix @ ''  '') child
                else [prefix @ ''- '' @ name])"
    by (rule ext) (simp add: entry_lines_def)
  then show ?thesis by (simp only: spec_listing.simps)
qed

lemma entry_lines_excluded:
  "excluded sys spec root name child \<Longrightarrow> entry_lines sys spec root prefix (name, child) = []"
  by (simp add: entry_lines_def)

lemma entry_lines_dir:
  "\<not> excluded sys spec root name child \<Longrightarrow> os_path_isdir child \<Longrightarrow>
   entry_lines sys spec root prefix (name, child)
     = (prefix @ ''- **'' @ name @ ''/**'')
       # spec_listing sys spec (os_path_join root name) (prefix @ ''  '') child"
  by (simp add: entry_lines_def)

lemma entry_lines_file:
  "\<not> excluded sys spec root name child \<Longrightarrow> \<not> os_path_isdir child \<Longrightarrow>
   entry_lines sys spec root prefix (name, child) = [prefix @ ''- '' @ name]"
  by (simp add: entry_lines_def)

lemma render_build:
  fixes acc :: pydict
  shows "distinct_names node \<Longrightarrow> names_one_line node \<Longrightarrow> set prefix \<subseteq> {CHR '' ''} \<Longrightarrow>
   build_file_tree sys spec root node = Inr t \<Longrightarrow>
   concat (map list_lines (render_lines t prefix)) = spec_listing sys spec root prefix node
   \<and> tree_sorted (Subtree t)"
    and "sorted_wrt (<) (map fst es) \<Longrightarrow>
   \<forall>e \<in> set es. CHR ''\<newline>'' \<notin> set (fst e) \<and> distinct_names (snd e) \<and> names_one_line (snd e) \<Longrightarrow>
   set prefix \<subseteq> {CHR '' ''} \<Longrightarrow>
   build_loop sys spec root es [] = Inr r \<Longrightarrow>
   concat (map list_lines (render_lines r prefix))
     = concat (map (entry_lines sys spec root prefix) es)
   \<and> sorted_wrt (<) (map fst r) \<and> fst ` set r \<subseteq> fst ` set es
   \<and> (\<forall>v \<in> snd ` set r. tree_sorted v)"
proof (induction sys spec root node and sys spec root es acc arbitrary: t prefix and r prefix
       rule: build_file_tree_build_loop.induct)
  case (1 sys spec root es)
  let ?L = "sort_key fst es"
  have s: "sorted_wrt (<) (map fst ?L)"
    using "1.prems"(1) by (intro strict_sorted_sort_key) simp
  have w: "\<forall>e \<in> set ?L. CHR ''\<newline>'' \<notin> set (fst e) \<and> distinct_names (snd e)
             \<and> names_one_line (snd e)"
    using "1.prems"(1,2) by auto
  have b: "build_loop sys spec root ?L [] = Inr t"
    using "1.prems"(4) by (simp only: build_file_tree.simps)
  from "1.IH" [OF s w "1.prems"(3) b] show ?case
    by (simp add: spec_listing_Dir del: spec_listing.simps)
next
  case (2 sys spec root e)
  then show ?case by simp
next
  case (3 sys spec root)
  then show ?case by simp
next
  case (4 sys spec root tree)
  then show ?case by simp
next
  case (5 sys spec root entry child rest tree)
  let ?path = "os_path_join root entry"
  have lt: "\<forall>n \<in> set (map fst rest). entry < n" and s: "sorted_wrt (<) (map fst rest)"
    using "5.prems"(1) by auto
  have d: "distinct (map fst ((entry, child) # rest))"
    using "5.prems"(1) by (rule strict_sorted_distinct)
  have w: "\<forall>e \<in> set rest. CHR ''\<newline>'' \<notin> set (fst e) \<and> distinct_names (snd e)
             \<and> names_one_line (snd e)"
    and n: "CHR ''\<newline>'' \<notin> set entry"
    and c: "distinct_names child" "names_one_line child"
    using "5.prems"(2) by auto
  note sp = "5.prems"(3)
  have tail: "concat (map list_lines (render_lines r' prefix))
                = concat (map (entry_lines sys spec root prefix) rest)
              \<and> sorted_wrt (<) (map fst r') \<and> fst ` set r' \<subseteq> fst ` set rest
              \<and> (\<forall>v \<in> snd ` set r'. tree_sorted v)"
    if "build_loop sys spec root rest [] = Inr r'" for r'
  proof (cases "entry \<in> skip_dirs \<and> os_path_isdir child")
    case True
    from "5.IH"(1) [OF refl True s w sp that] show ?thesis .
  next
    case ns: False
    show ?thesis
    proof (cases "is_ignored sys ?path spec")
      case True
      from "5.IH"(2) [OF refl ns True s w sp that] show ?thesis .
    next
      case ni: False
      show ?thesis
      proof (cases "os_path_isdir child")
        case False
        show ?thesis
        proof (cases "is_binary_file sys ?path 1024")
          case True
          from "5.IH"(5) [OF refl ns ni False True s w sp that] show ?thesis .
        next
          case nb: False
          from "5.IH"(6) [OF refl ns ni False nb s w sp that] show ?thesis .
        qed
      next
        case True
        show ?thesis
        proof (cases "build_file_tree sys spec ?path child")
          case (Inl e)
          have "build_loop sys spec root ((entry, child) # rest) [] = Inl e"
            using ns ni by (simp add: build_loop_dir [OF ns ni True] Inl del: build_loop.simps)
          with "5.prems"(4) show ?thesis by simp
        next
          case (Inr sub)
          from "5.IH"(4) [OF refl ns ni True Inr s w sp that] show ?thesis .
        qed
      qed
    qed
  qed
  show ?case
  proof (cases "excluded sys spec root entry child")
    case True
    have "build_loop sys spec root rest [] = Inr r"
      using "5.prems"(4) build_loop_excluded [OF True, of rest "[]"] by simp
    from tail [OF this] show ?thesis by (auto simp: entry_lines_excluded [OF True])
  next
    case ne: False
    then have ns: "\<not> (entry \<in> skip_dirs \<and> os_path_isdir child)"
      and ni: "\<not> is_ignored sys ?path spec" by (auto simp: excluded_def)
    show ?thesis
    proof (cases "os_path_isdir child")
      case True
      from "5.prems"(4) build_loop_dir_Nil [OF d ne True] obtain sub r' where
        sub: "build_file_tree sys spec ?path child = Inr sub"
        and r': "build_loop sys spec root rest [] = Inr r'"
        and r: "r = (entry, Subtree sub) # r'"
        by (auto split: sum.splits)
      have sp': "set (prefix @ ''  '') \<subseteq> {CHR '' ''}" using sp by auto
      from "5.IH"(3) [OF refl ns ni True c sp' sub]
      have i: "concat (map list_lines (render_lines sub (prefix @ ''  '')))
                 = spec_listing sys spec ?path (prefix @ ''  '') child"
        and ts: "tree_sorted (Subtree sub)" by blast+
      note t = tail [OF r']
      have "concat (map list_lines (render_lines r prefix))
              = list_lines (prefix @ ''- **'' @ entry @ ''/**'')
                @ list_lines (render_tree_markdown sub (prefix @ ''  ''))
                @ concat (map list_lines (render_lines r' prefix))"
        unfolding r by (simp del: render_tree_markdown.simps)
      also have "\<dots> = (prefix @ ''- **'' @ entry @ ''/**'')
                # spec_listing sys spec ?path (prefix @ ''  '') child
                @ concat (map (entry_lines sys spec root prefix) rest)"
        using i t by (simp only: list_lines_dir [OF sp n] render_tree_markdown.simps
            list_lines_join) simp
      also have "\<dots> = concat (map (entry_lines sys spec root prefix) ((entry, child) # rest))"
        by (simp add: entry_lines_dir [OF ne True])
      finally have 1: "concat (map list_lines (render_lines r prefix))
              = concat (map (entry_lines sys spec root prefix) ((entry, child) # rest))" .
      have "entry < fst x" if "x \<in> set r'" for x
      proof -
        from that have "fst x \<in> fst ` set r'" by (rule imageI)
        with t have "fst x \<in> fst ` set rest" by blast
        with lt show ?thesis by auto
      qed
      with t have 2: "sorted_wrt (<) (map fst r)" unfolding r by auto
      have 3: "fst ` set r \<subseteq> fst ` set ((entry, child) # rest)" using t unfolding r by auto
      have 4: "\<forall>v \<in> snd ` set r. tree_sorted v" using t ts unfolding r by auto
      from 1 2 3 4 show ?thesis by blast
    next
      case False
      let ?v = "if is_binary_file sys ?path 1024 then BINARY else FILE"
      from "5.prems"(4) build_loop_file_Nil [OF d ne False] obtain r' where
        r': "build_loop sys spec root rest [] = Inr r'"
        and r: "r = (entry, ?v) # r'"
        by (auto split: sum.splits)
      note t = tail [OF r']
      have "concat (map list_lines (render_lines r prefix))
              = list_lines (prefix @ ''- '' @ entry)
                @ concat (map list_lines (render_lines r' prefix))"
        unfolding r by simp
      also have "\<dots> = (prefix @ ''- '' @ entry)
                # concat (map (entry_lines sys spec root prefix) rest)"
        using t by (simp only: list_lines_item [OF sp n]) simp
      also have "\<dots> = concat (map (entry_lines sys spec root prefix) ((entry, child) # rest))"
        by (simp add: entry_lines_file [OF ne False])
      finally have 1: "concat (map list_lines (render_lines r prefix))
              = concat (map (entry_lines sys spec root prefix) ((entry, child) # rest))" .
      have "entry < fst x" if "x \<in> set r'" for x
      proof -
        from that have "fst x \<in> fst ` set r'" by (rule imageI)
        with t have "fst x \<in> fst ` set rest" by blast
        with lt show ?thesis by auto
      qed
      with t have 2: "sorted_wrt (<) (map fst r)" unfolding r by auto
      have 3: "fst ` set r \<subseteq> fst ` set ((entry, child) # rest)" using t unfolding r by auto
      have 4: "\<forall>v \<in> snd ` set r. tree_sorted v" using t unfolding r by auto
      from 1 2 3 4 show ?thesis by blast
    qed
  qed
qed

text \<open>
  C1 as stated fails: a name may contain a line feed, and the renderer
  writes names as they are. The directory with the single file \<open>a\<newline>- b\<close> is
  rendered as two list lines.
\<close>

theorem newline_name_two_lines:
  "build_file_tree plain_os None ''/w'' (Dir [(''a\<newline>- b'', NonDir)])
     = Inr [(''a\<newline>- b'', FILE)]
   \<and> list_lines (render_tree_markdown [(''a\<newline>- b'', FILE)] []) = [''- a'', ''- b'']"
proof -
  have "build_file_tree plain_os None ''/w'' (Dir [(''a\<newline>- b'', NonDir)])
     = Inr [(''a\<newline>- b'', FILE)]"
    by code_simp
  moreover have "list_lines (render_tree_markdown [(''a\<newline>- b'', FILE)] [])
     = [''- a'', ''- b'']"
    by code_simp
  ultimately show ?thesis by simp
qed

text \<open>
  C1, amended. For every finite directory tree in which no name contains a line feed
  (the names of a directory being pairwise different, as a listing gives them), the list
  lines of the rendering of the built tree are the listing of the specification: one
  line for each entry that is not left out, the entries of a directory in the
  lexicographic order of their names, those of a subdirectory below its line. The keys
  of every dictionary of the built tree are in strictly increasing order.
\<close>

theorem render_build_listing:
  assumes "distinct_names node" and "names_one_line node"
    and "build_file_tree sys spec root node = Inr t"
  shows "list_lines (render_tree_markdown t []) = spec_listing sys spec root [] node
         \<and> tree_sorted (Subtree t)"
proof -
  have "set ([] :: string) \<subseteq> {CHR '' ''}" by simp
  from render_build(1) [OF assms(1,2) this assms(3)] show ?thesis
    by (simp only: render_tree_markdown.simps list_lines_join)
qed

theorem render_build_listing_witness:
  "distinct_names (Dir [(''src'', Dir [(''b.py'', NonDir), (''a.py'', NonDir)]), (''README'', NonDir)])
   \<and> names_one_line (Dir [(''src'', Dir [(''b.py'', NonDir), (''a.py'', NonDir)]), (''README'', NonDir)])
   \<and> build_file_tree plain_os None ''/w''
         (Dir [(''src'', Dir [(''b.py'', NonDir), (''a.py'', NonDir)]), (''README'', NonDir)])
       = Inr [(''README'', FILE), (''src'', Subtree [(''a.py'', FILE), (''b.py'', FILE)])]
   \<and> list_lines (render_tree_markdown
         [(''README'', FILE), (''src'', Subtree [(''a.py'', FILE), (''b.py'', FILE)])] [])
       = [''- README'', ''- **src/**'', ''  - a.py'', ''  - b.py'']
   \<and> tree_sorted (Subtree [(''README'', FILE), (''src'', Subtree [(''a.py'', FILE), (''b.py'', FILE)])])"
proof -
  let ?n = "Dir [(''src'', Dir [(''b.py'', NonDir), (''a.py'', NonDir)]), (''README'', NonDir)]"
  let ?t = "[(''README'', FILE), (''src'', Subtree [(''a.py'', FILE), (''b.py'', FILE)])]"
  have a: "distinct_names ?n" by simp
  have b: "names_one_line ?n" by simp
  have c: "build_file_tree plain_os None ''/w'' ?n = Inr ?t" by code_simp
  have d: "spec_listing plain_os None ''/w'' [] ?n
             = [''- README'', ''- **src/**'', ''  - a.py'', ''  - b.py'']"
    by code_simp
  from render_build_listing [OF a b c] a b c show ?thesis unfolding d by blast
qed

subsection \<open>Empty directories\<close>







subsection \<open>The document is a function of the state of the file system\<close>

lemma same_fs_isdir: "same_fs a b \<Longrightarrow> os_path_isdir a = os_path_isdir b"
  by (cases rule: same_fs.cases) auto

lemma build_loop_cong:
  assumes "getcwd sys' = getcwd sys" and "open_rb sys' = open_rb sys"
    and "map fst L = map fst L'"
    and "\<And>n c c'. (n, c) \<in> set L \<Longrightarrow> (n, c') \<in> set L' \<Longrightarrow>
           os_path_isdir c = os_path_isdir c'
           \<and> (\<forall>root. build_file_tree sys spec root c = build_file_tree sys' spec root c')"
  shows "build_loop sys spec root L acc = build_loop sys' spec root L' acc"
  using assms(3,4)
proof (induction L arbitrary: L' acc)
  case Nil
  then show ?case by simp
next
  case (Cons a L)
  obtain n c where a: "a = (n, c)" by (cases a)
  from Cons.prems(1) a obtain c' M where L': "L' = (n, c') # M" and m: "map fst L = map fst M"
    by (cases L') auto
  let ?path = "os_path_join root n"
  have ig: "is_ignored sys' ?path spec = is_ignored sys ?path spec"
    using assms(1) by (cases spec) (simp_all add: is_ignored_def)
  have bin: "is_binary_file sys' ?path 1024 = is_binary_file sys ?path 1024"
    using assms(2) by (simp add: is_binary_file_def)
  have hd: "os_path_isdir c = os_path_isdir c'"
    and sub: "build_file_tree sys spec ?path c = build_file_tree sys' spec ?path c'"
    using Cons.prems(2) [of n c c'] a L' by auto
  have tl: "build_loop sys spec root L acc' = build_loop sys' spec root M acc'" for acc'
  proof (rule Cons.IH [OF m])
    fix k d d'
    assume "(k, d) \<in> set L" "(k, d') \<in> set M"
    then show "os_path_isdir d = os_path_isdir d'
           \<and> (\<forall>root. build_file_tree sys spec root d = build_file_tree sys' spec root d')"
      using Cons.prems(2) [of k d d'] L' by simp
  qed
  show ?case
  proof (cases "n \<in> skip_dirs \<and> os_path_isdir c")
    case True
    then have True': "n \<in> skip_dirs \<and> os_path_isdir c'" using hd by simp
    show ?thesis unfolding a L' build_loop_skip [OF True] build_loop_skip [OF True'] by (rule tl)
  next
    case ns: False
    then have ns': "\<not> (n \<in> skip_dirs \<and> os_path_isdir c')" using hd by simp
    show ?thesis
    proof (cases "is_ignored sys ?path spec")
      case True
      then have True': "is_ignored sys' ?path spec" using ig by simp
      show ?thesis unfolding a L' build_loop_ignored [OF True] build_loop_ignored [OF True']
        by (rule tl)
    next
      case ni: False
      then have ni': "\<not> is_ignored sys' ?path spec" using ig by simp
      show ?thesis
      proof (cases "os_path_isdir c")
        case True
        then have True': "os_path_isdir c'" using hd by simp
        show ?thesis
          unfolding a L' build_loop_dir [OF ns ni True] build_loop_dir [OF ns' ni' True'] sub
          by (simp add: tl split: sum.splits del: build_loop.simps)
      next
        case False
        then have False': "\<not> os_path_isdir c'" using hd by simp
        show ?thesis
          unfolding a L' build_loop_file [OF ni False] build_loop_file [OF ni' False'] bin
          by (rule tl)
      qed
    qed
  qed
qed

lemma same_fs_build:
  assumes "same_fs a b" and "getcwd sys' = getcwd sys" and "open_rb sys' = open_rb sys"
  shows "build_file_tree sys spec root a = build_file_tree sys' spec root b"
  using assms(1)
proof (induction a b arbitrary: root rule: same_fs.induct)
  case same_NonDir
  show ?case by simp
next
  case (same_DirUnlistable e)
  show ?case by simp
next
  case (same_Dir es es')
  let ?L = "sort_key fst es" and ?L' = "sort_key fst es'"
  have "sorted_wrt (<) (map fst ?L)" "sorted_wrt (<) (map fst ?L')"
    using same_Dir.hyps(1,2) by (simp_all add: strict_sorted_sort_key)
  moreover have "set (map fst ?L) = set (map fst ?L')" using same_Dir.hyps(3) by simp
  ultimately have m: "map fst ?L = map fst ?L'"
    by (intro sorted_distinct_set_unique) (simp_all add: strict_sorted_iff)
  have "build_loop sys spec root ?L [] = build_loop sys' spec root ?L' []"
  proof (rule build_loop_cong [OF assms(2,3) m])
    fix n c c'
    assume "(n, c) \<in> set ?L" "(n, c') \<in> set ?L'"
    then have "(n, c) \<in> set es" "(n, c') \<in> set es'" by simp_all
    then show "os_path_isdir c = os_path_isdir c'
           \<and> (\<forall>root. build_file_tree sys spec root c = build_file_tree sys' spec root c')"
      using same_Dir.hyps(4) same_Dir.IH same_fs_isdir by blast
  qed
  then show ?case by (simp only: build_file_tree.simps)
qed

lemma gather_cong:
  "open_text sys' = open_text sys \<Longrightarrow>
   gather_file_contents sys' tree parent = gather_file_contents sys tree parent"
  "open_text sys' = open_text sys \<Longrightarrow>
   gather_loop sys' tree parent = gather_loop sys tree parent"
proof (induction sys tree parent and sys tree parent rule: gather_file_contents_gather_loop.induct)
  case (1 sys tree parent_path)
  then show ?case by (simp only: gather_file_contents.simps)
next
  case (2 sys parent_path)
  show ?case by simp
next
  case (3 sys name val items parent_path)
  have "file_text sys' p = file_text sys p" for p
    using "3.prems" by (simp add: file_text_def)
  with 3 show ?case
    by (cases val) (simp_all add: gather_loop_Cons del: gather_loop.simps gather_file_contents.simps)
qed

text \<open>
  C9. The document is a function of the state of the system: \<open>main\<close> reads no clock and
  no random source, and a Python \<open>dict\<close> keeps the order of insertion. The one thing a
  second run on the unchanged directory may see differently is the order in which
  \<open>os.listdir\<close> returns the names, and the document does not depend on it: two states
  with the same working directory, the same files and the same content of every
  directory give the same document (or the same exception).
\<close>

theorem main_deterministic:
  assumes "getcwd sys' = getcwd sys" and "path_exists sys' = path_exists sys"
    and "open_rb sys' = open_rb sys" and "open_text sys' = open_text sys"
    and "pathspec_from_lines sys' = pathspec_from_lines sys"
    and "same_fs (fs_root sys) (fs_root sys')"
  shows "main sys' = main sys"
proof -
  have l: "load_gitignore_patterns sys' p = load_gitignore_patterns sys p" for p
    unfolding load_gitignore_patterns_def assms(2,4,5) ..
  have b: "build_file_tree sys' spec (getcwd sys) (fs_root sys')
             = build_file_tree sys spec (getcwd sys) (fs_root sys)" for spec
    using same_fs_build [OF assms(6) assms(1) assms(3)] by simp
  have d: "document sys' t = document sys t" for t
    using assms(1) gather_cong(1) [OF assms(4)] by (simp add: document_def)
  show ?thesis
    unfolding main_document l b d assms(1) ..
qed

theorem main_deterministic_witness:
  "same_fs (fs_root md_os) (fs_root md_os_relisted)
   \<and> fs_root md_os_relisted \<noteq> fs_root md_os
   \<and> main md_os_relisted = main md_os"
proof -
  have s: "same_fs (fs_root md_os) (fs_root md_os_relisted)"
    unfolding md_os_def md_os_relisted_def
    by (simp, rule same_Dir) (auto intro: same_NonDir)
  have n: "fs_root md_os_relisted \<noteq> fs_root md_os"
    by (simp add: md_os_def md_os_relisted_def)
  have "main md_os_relisted = main md_os"
    by (rule main_deterministic [OF _ _ _ _ _ s]) (simp_all add: md_os_relisted_def)
  with s n show ?thesis by blast
qed

end
